theory Spec2Isabelle
  imports Complex_Main "HOL-Library.Sublist" "HOL-Library.AList"
begin

section \<open>The electric vehicle dashboard: values of the JavaScript runtime\<close>

text \<open>
  The component \<open>Dashboard\<close> (\<open>src/unnamed/part_000\<close>) keeps four pieces of state and derives
  every displayed quantity from them in its function body. The rows come from a CSV parser with
  dynamic typing: a cell holds a value of the declared type, \<open>null\<close> when the cell is empty, and
  the key is missing (\<open>undefined\<close>) when the row is too short.

  A JavaScript number is modelled as an exact rational extended with the two infinities and
  \<open>NaN\<close>. The rounding of IEEE doubles is not modelled, and \<open>-0\<close> is identified with \<open>0\<close>
  (no operation used by the component tells them apart).
\<close>

datatype number = Fin rat | PosInf | NegInf | NaN

datatype 'a field = Undefined | Null | Present 'a

text \<open>ToBoolean on a number and on a string.\<close>

fun truthy_number :: "number \<Rightarrow> bool" where
  "truthy_number (Fin q) = (q \<noteq> 0)"
| "truthy_number PosInf = True"
| "truthy_number NegInf = True"
| "truthy_number NaN = False"

definition truthy_string :: "string \<Rightarrow> bool" where
  "truthy_string s = (s \<noteq> [])"

text \<open>
  Strict equality \<open>===\<close> between a cell and a number or a string: operands of different types
  are unequal, and \<open>NaN\<close> is unequal to everything.
\<close>

fun strict_eq_number :: "number field \<Rightarrow> number \<Rightarrow> bool" where
  "strict_eq_number (Present a) b = (a \<noteq> NaN \<and> b \<noteq> NaN \<and> a = b)"
| "strict_eq_number Undefined b = False"
| "strict_eq_number Null b = False"

fun strict_eq_string :: "string field \<Rightarrow> string \<Rightarrow> bool" where
  "strict_eq_string (Present a) b = (a = b)"
| "strict_eq_string Undefined b = False"
| "strict_eq_string Null b = False"

text \<open>Addition, subtraction and division of numbers.\<close>

fun js_add :: "number \<Rightarrow> number \<Rightarrow> number" where
  "js_add (Fin a) (Fin b) = Fin (a + b)"
| "js_add NaN y = NaN"
| "js_add x NaN = NaN"
| "js_add PosInf NegInf = NaN"
| "js_add NegInf PosInf = NaN"
| "js_add PosInf y = PosInf"
| "js_add NegInf y = NegInf"
| "js_add x PosInf = PosInf"
| "js_add x NegInf = NegInf"

fun js_neg :: "number \<Rightarrow> number" where
  "js_neg (Fin a) = Fin (- a)"
| "js_neg PosInf = NegInf"
| "js_neg NegInf = PosInf"
| "js_neg NaN = NaN"

definition js_sub :: "number \<Rightarrow> number \<Rightarrow> number" where
  "js_sub x y = js_add x (js_neg y)"

fun js_div :: "number \<Rightarrow> number \<Rightarrow> number" where
  "js_div (Fin a) (Fin b) =
     (if b \<noteq> 0 then Fin (a / b)
      else if a = 0 then NaN
      else if 0 < a then PosInf else NegInf)"
| "js_div NaN y = NaN"
| "js_div x NaN = NaN"
| "js_div (Fin a) PosInf = Fin 0"
| "js_div (Fin a) NegInf = Fin 0"
| "js_div PosInf (Fin b) = (if 0 \<le> b then PosInf else NegInf)"
| "js_div NegInf (Fin b) = (if 0 \<le> b then NegInf else PosInf)"
| "js_div x y = NaN"

text \<open>ToNumber on a numeric cell (\<open>null\<close> is \<open>0\<close>, \<open>undefined\<close> is \<open>NaN\<close>) and the global \<open>isNaN\<close>.\<close>

fun to_number :: "number field \<Rightarrow> number" where
  "to_number (Present a) = a"
| "to_number Null = Fin 0"
| "to_number Undefined = NaN"

definition isNaN :: "number field \<Rightarrow> bool" where
  "isNaN v = (to_number v = NaN)"

section \<open>Rows and component state\<close>

text \<open>The interface \<open>Data\<close>; a key with characters outside identifiers is spelled with underscores.\<close>

record Data =
  VIN_1_10 :: "string field"
  County :: "string field"
  City :: "string field"
  State :: "string field"
  Postal_Code :: "number field"
  Model_Year :: "number field"
  Make :: "string field"
  Model :: "string field"
  Electric_Vehicle_Type :: "string field"
  CAFV_Eligibility :: "string field"
  Electric_Range :: "number field"
  Base_MSRP :: "number field"
  Legislative_District :: "number field"
  DOL_Vehicle_ID :: "number field"
  Vehicle_Location :: "string field"
  Electric_Utility :: "string field"
  Census_Tract_2020 :: "number field"

definition ITEMS_PER_PAGE :: nat where
  "ITEMS_PER_PAGE = 10"

text \<open>
  The four \<open>useState\<close> cells. \<open>selectedYear\<close> and \<open>selectedMake\<close> have the types
  \<open>number | null\<close> and \<open>string | null\<close>: \<open>None\<close> is \<open>null\<close>. \<open>currentPage\<close> starts at 1 and is
  only ever changed by the two page buttons, which keep it an integer.
\<close>

record dashboard =
  data :: "Data list"
  currentPage :: int
  selectedYear :: "number option"
  selectedMake :: "string option"

section \<open>The filter\<close>

text \<open>
  \<^verbatim>\<open>data.filter((item) => (selectedYear ? item["Model Year"] === selectedYear : true) &&
                           (selectedMake ? item.Make === selectedMake : true))\<close>
  The conditions test the truthiness of the selection, so \<open>null\<close>, \<open>0\<close>, \<open>NaN\<close> and the empty
  string all take the \<open>true\<close> branch.
\<close>

definition filteredData :: "dashboard \<Rightarrow> Data list" where
  "filteredData st =
     filter (\<lambda>item.
        (case selectedYear st of
           None \<Rightarrow> True
         | Some y \<Rightarrow> if truthy_number y then strict_eq_number (Model_Year item) y else True) \<and>
        (case selectedMake st of
           None \<Rightarrow> True
         | Some m \<Rightarrow> if truthy_string m then strict_eq_string (Make item) m else True))
       (data st)"

definition totalVehicles :: "dashboard \<Rightarrow> nat" where
  "totalVehicles st = length (filteredData st)"

section \<open>Summary figures\<close>

text \<open>
  A \<open>Set\<close> keeps its members in the order of first insertion and compares them by
  SameValueZero, which on the values of a cell is plain equality (\<open>NaN\<close> equals itself).
\<close>

definition Set_add :: "'a list \<Rightarrow> 'a \<Rightarrow> 'a list" where
  "Set_add s x = (if x \<in> set s then s else s @ [x])"

definition new_Set :: "'a list \<Rightarrow> 'a list" where
  "new_Set xs = foldl Set_add [] xs"

definition uniqueMakes :: "dashboard \<Rightarrow> nat" where
  "uniqueMakes st = length (new_Set (map Make (filteredData st)))"



section \<open>Objects used as dictionaries\<close>

text \<open>
  The reducers accumulate into an object literal \<open>{}\<close>. Such an object is modelled by the list
  of its own properties in the order of their creation; its prototype is \<open>Object.prototype\<close>,
  whose members are visible through a property read.
\<close>

type_synonym 'v object = "(string \<times> 'v) list"

definition Object_prototype_keys :: "string list" where
  "Object_prototype_keys =
     [''constructor'', ''__defineGetter__'', ''__defineSetter__'', ''hasOwnProperty'',
      ''__lookupGetter__'', ''__lookupSetter__'', ''isPrototypeOf'', ''propertyIsEnumerable'',
      ''toString'', ''valueOf'', ''__proto__'', ''toLocaleString'']"

text \<open>
  The value of a counter property. \<open>Str\<close> is a string: it arises when \<open>1\<close> is added to an
  inherited member (a function, or the prototype object for \<open>__proto__\<close>), which converts the
  member to its implementation-defined source text and appends the character \<open>1\<close>.
\<close>

datatype cell = Num nat | Str

text \<open>
  \<^verbatim>\<open>(acc[k] ?? 0) + 1\<close>: an own property is read first, then the prototype; only a key found in
  neither is \<open>undefined\<close> and replaced by \<open>0\<close>. Adding \<open>1\<close> to a string appends to it.
\<close>

definition incremented :: "cell object \<Rightarrow> string \<Rightarrow> cell" where
  "incremented acc k =
     (case map_of acc k of
        Some (Num c) \<Rightarrow> Num (c + 1)
      | Some Str \<Rightarrow> Str
      | None \<Rightarrow> if k \<in> set Object_prototype_keys then Str else Num 1)"

text \<open>
  \<^verbatim>\<open>acc[k] = v\<close> for a number or string \<open>v\<close>: the inherited setter of \<open>__proto__\<close> ignores a value
  that is not an object; any other key is overwritten in place or created last.
\<close>

definition assign :: "cell object \<Rightarrow> string \<Rightarrow> cell \<Rightarrow> cell object" where
  "assign acc k v = (if k = ''__proto__'' then acc else AList.update k v acc)"

text \<open>
  The order of \<open>Object.entries\<close> and \<open>Object.values\<close>: the keys that are array indices (the
  canonical decimal numerals up to \<open>2^32 - 2\<close>) in ascending numeric order, then every other
  string key in creation order.
\<close>

definition is_digit :: "char \<Rightarrow> bool" where
  "is_digit c = (c \<in> set ''0123456789'')"

definition decimal_value :: "string \<Rightarrow> int" where
  "decimal_value s = foldl (\<lambda>n c. 10 * n + (of_char c - 48)) 0 s"

definition is_array_index :: "string \<Rightarrow> bool" where
  "is_array_index s =
     (s \<noteq> [] \<and> list_all is_digit s \<and> (hd s \<noteq> CHR ''0'' \<or> s = ''0'') \<and>
      decimal_value s \<le> 4294967294)"

definition Object_entries :: "'v object \<Rightarrow> (string \<times> 'v) list" where
  "Object_entries obj =
     sort_key (\<lambda>p. decimal_value (fst p)) (filter (\<lambda>p. is_array_index (fst p)) obj) @
     filter (\<lambda>p. \<not> is_array_index (fst p)) obj"

section \<open>Sorting and slicing arrays\<close>

text \<open>
  \<open>Array.prototype.sort\<close> with a comparator: a positive result puts the first argument after
  the second, \<open>NaN\<close> counts as \<open>0\<close>. The sort is stable, so for a consistent comparator its
  result is the one computed by insertion from the right. (For an inconsistent comparator the
  standard leaves the order to the implementation; no statement below relies on that case.)
\<close>

fun positive :: "number \<Rightarrow> bool" where
  "positive (Fin q) = (0 < q)"
| "positive PosInf = True"
| "positive NegInf = False"
| "positive NaN = False"

fun js_insort :: "('a \<Rightarrow> 'a \<Rightarrow> number) \<Rightarrow> 'a \<Rightarrow> 'a list \<Rightarrow> 'a list" where
  "js_insort cmp x [] = [x]"
| "js_insort cmp x (y # ys) = (if positive (cmp x y) then y # js_insort cmp x ys else x # y # ys)"

definition js_sort :: "('a \<Rightarrow> 'a \<Rightarrow> number) \<Rightarrow> 'a list \<Rightarrow> 'a list" where
  "js_sort cmp xs = foldr (js_insort cmp) xs []"

text \<open>
  \<open>Array.prototype.slice(start, end)\<close> on integers: a negative bound counts from the end, and
  both bounds are clipped to the array.
\<close>

definition js_slice :: "int \<Rightarrow> int \<Rightarrow> 'a list \<Rightarrow> 'a list" where
  "js_slice start end xs =
     (let len = int (length xs);
          k = (if start < 0 then max (len + start) 0 else min start len);
          final = (if end < 0 then max (len + end) 0 else min end len)
      in take (nat (final - k)) (drop (nat k) xs))"

section \<open>Distributions\<close>

text \<open>\<^verbatim>\<open>item[...] || "Unknown"\<close>\<close>

fun or_unknown :: "string field \<Rightarrow> string" where
  "or_unknown (Present s) = (if truthy_string s then s else ''Unknown'')"
| "or_unknown Undefined = ''Unknown''"
| "or_unknown Null = ''Unknown''"

definition vehicleTypes :: "dashboard \<Rightarrow> cell object" where
  "vehicleTypes st =
     foldl (\<lambda>acc item.
              let type = or_unknown (Electric_Vehicle_Type item)
              in assign acc type (incremented acc type))
       [] (filteredData st)"

text \<open>An object \<open>{ name, value }\<close> is the pair of its two fields.\<close>

definition vehicleTypesData :: "dashboard \<Rightarrow> (string \<times> cell) list" where
  "vehicleTypesData st = map (\<lambda>(name, v). (name, v)) (Object_entries (vehicleTypes st))"

definition makeDistribution :: "dashboard \<Rightarrow> cell object" where
  "makeDistribution st =
     foldl (\<lambda>acc item.
              let make = or_unknown (Make item)
              in assign acc make (incremented acc make))
       [] (filteredData st)"

text \<open>ToNumber on a counter: the strings that can occur are not numerals.\<close>

fun cell_number :: "cell \<Rightarrow> number" where
  "cell_number (Num n) = Fin (of_nat n)"
| "cell_number Str = NaN"

definition makeDistributionData :: "dashboard \<Rightarrow> (string \<times> cell) list" where
  "makeDistributionData st =
     map (\<lambda>(name, v). (name, v))
       (js_slice 0 5
         (js_sort (\<lambda>a b. js_sub (cell_number (snd b)) (cell_number (snd a)))
           (Object_entries (makeDistribution st))))"

section \<open>Average range by model year\<close>

text \<open>
  The accumulator of \<open>rangeByYear\<close> is an object keyed by \<open>ToString(year)\<close>. On the values that
  pass the guard (\<open>null\<close> and every number but \<open>NaN\<close>) that conversion is injective and never
  yields a member name of \<open>Object.prototype\<close>, so the model keys the object by the value itself.
  The field that accumulates the sum is called \<open>averageRange\<close> in the source.
\<close>

record bucket =
  year :: "number field"
  averageRange_acc :: number
  count :: nat

text \<open>
  \<^verbatim>\<open>if (!isNaN(year) && !isNaN(range)) {
    if (!acc[year]) acc[year] = { year, averageRange: 0, count: 0 };
    acc[year].averageRange += range;
    acc[year].count += 1;
  }\<close>
\<close>

definition rangeByYear :: "dashboard \<Rightarrow> (number field \<times> bucket) list" where
  "rangeByYear st =
     foldl (\<lambda>acc item.
              let yr = Model_Year item; rng = Electric_Range item
              in if \<not> isNaN yr \<and> \<not> isNaN rng then
                   (let acc1 = (if map_of acc yr = None
                                then acc @ [(yr, \<lparr>year = yr, averageRange_acc = Fin 0, count = 0\<rparr>)]
                                else acc);
                        acc2 = AList.map_entry yr
                                 (\<lambda>b. b\<lparr>averageRange_acc := js_add (averageRange_acc b) (to_number rng)\<rparr>) acc1
                    in AList.map_entry yr (\<lambda>b. b\<lparr>count := count b + 1\<rparr>) acc2)
                 else acc)
       [] (filteredData st)"

text \<open>The keys of that object that are array indices: the integers from 0 to \<open>2^32 - 2\<close>.\<close>

fun year_is_index :: "number field \<Rightarrow> bool" where
  "year_is_index (Present (Fin q)) = (q = of_int \<lfloor>q\<rfloor> \<and> 0 \<le> q \<and> q \<le> 4294967294)"
| "year_is_index v = False"

definition Object_values :: "(number field \<times> 'v) list \<Rightarrow> 'v list" where
  "Object_values obj =
     map snd
       (sort_key (\<lambda>p. case fst p of Present (Fin q) \<Rightarrow> \<lfloor>q\<rfloor> | _ \<Rightarrow> 0)
          (filter (\<lambda>p. year_is_index (fst p)) obj) @
        filter (\<lambda>p. \<not> year_is_index (fst p)) obj)"

text \<open>An entry \<open>{ year, averageRange }\<close> of the result is the pair of its two fields.\<close>

definition rangeByYearData :: "dashboard \<Rightarrow> (number field \<times> number) list" where
  "rangeByYearData st =
     js_sort (\<lambda>a b. js_sub (to_number (fst a)) (to_number (fst b)))
       (map (\<lambda>b. (year b, js_div (averageRange_acc b) (Fin (of_nat (count b)))))
          (Object_values (rangeByYear st)))"

section \<open>The page of the table, the filter options and the page buttons\<close>

definition paginatedData :: "dashboard \<Rightarrow> Data list" where
  "paginatedData st =
     js_slice ((currentPage st - 1) * int ITEMS_PER_PAGE) (currentPage st * int ITEMS_PER_PAGE)
       (filteredData st)"

definition uniqueYears :: "dashboard \<Rightarrow> number field list" where
  "uniqueYears st = new_Set (map Model_Year (data st))"

definition uniqueMakesList :: "dashboard \<Rightarrow> string field list" where
  "uniqueMakesList st = new_Set (map Make (data st))"

text \<open>
  \<open>Math.ceil(totalVehicles / ITEMS_PER_PAGE)\<close>. (The quotient of a length by ten is far from the
  next integer unless it is one, so rounding does not change the ceiling.)
\<close>

definition lastPage :: "dashboard \<Rightarrow> int" where
  "lastPage st = \<lceil>(of_nat (totalVehicles st) :: rat) / of_nat ITEMS_PER_PAGE\<rceil>"

text \<open>
  The two buttons. A disabled button does not call its handler.
  \<^verbatim>\<open>onClick={() => setCurrentPage((prev) => Math.max(prev - 1, 1))}  disabled={currentPage === 1}\<close>
  \<^verbatim>\<open>onClick={() => setCurrentPage((prev) => Math.min(prev + 1, Math.ceil(totalVehicles / ITEMS_PER_PAGE)))}\<close>
  \<^verbatim>\<open>disabled={currentPage === Math.ceil(totalVehicles / ITEMS_PER_PAGE)}\<close>
\<close>

definition previous_click :: "dashboard \<Rightarrow> dashboard" where
  "previous_click st =
     (if currentPage st = 1 then st
      else st\<lparr>currentPage := max (currentPage st - 1) 1\<rparr>)"

definition next_click :: "dashboard \<Rightarrow> dashboard" where
  "next_click st =
     (if currentPage st = lastPage st then st
      else st\<lparr>currentPage := min (currentPage st + 1) (lastPage st)\<rparr>)"

text \<open>The state of the first render, before the CSV file has arrived.\<close>

definition initial :: dashboard where
  "initial = \<lparr>data = [], currentPage = 1, selectedYear = None, selectedMake = None\<rparr>"

section \<open>Example rows\<close>

text \<open>
  A row with the four columns the aggregations read (model year, make, vehicle type, electric
  range); every other cell is empty.
\<close>

definition row :: "number field \<Rightarrow> string field \<Rightarrow> string field \<Rightarrow> number field \<Rightarrow> Data" where
  "row yr mk ty rg =
     \<lparr>VIN_1_10 = Null, County = Null, City = Null, State = Null, Postal_Code = Null,
      Model_Year = yr, Make = mk, Model = Null, Electric_Vehicle_Type = ty,
      CAFV_Eligibility = Null, Electric_Range = rg, Base_MSRP = Null,
      Legislative_District = Null, DOL_Vehicle_ID = Null, Vehicle_Location = Null,
      Electric_Utility = Null, Census_Tract_2020 = Null\<rparr>"

section \<open>Reference notions used in the statements\<close>


text \<open>The categories of the two distributions, row by row in view order.\<close>

definition makeCategories :: "dashboard \<Rightarrow> string list" where
  "makeCategories st = map (\<lambda>item. or_unknown (Make item)) (filteredData st)"

definition typeCategories :: "dashboard \<Rightarrow> string list" where
  "typeCategories st = map (\<lambda>item. or_unknown (Electric_Vehicle_Type item)) (filteredData st)"

text \<open>The key by which the comparator \<open>b[1] - a[1]\<close> orders entries that hold counts.\<close>

definition by_count_desc :: "string \<times> cell \<Rightarrow> int" where
  "by_count_desc p = (case snd p of Num n \<Rightarrow> - int n | Str \<Rightarrow> 0)"

text \<open>The position at which a value is first seen in a list.\<close>

definition first_seen :: "'a list \<Rightarrow> 'a \<Rightarrow> nat" where
  "first_seen xs x = length (takeWhile (\<lambda>c. c \<noteq> x) xs)"

section \<open>The filter stage\<close>

lemma strict_eq_number_iff:
  "truthy_number y \<Longrightarrow> strict_eq_number v y = (v = Present y)"
  by (cases v; cases y) auto

lemma strict_eq_string_iff: "strict_eq_string v m = (v = Present m)"
  by (cases v) auto

text \<open>
  What the filter computes: the store filtered, in store order, by the constraints whose
  selected value is truthy. A selected year other than \<open>0\<close> and \<open>NaN\<close> must equal the row's
  model year, a selected make other than the empty string must equal the row's make character
  by character, and a row whose model year is missing or \<open>NaN\<close> never passes such a year
  constraint.
\<close>

lemma filteredData_truthy_constraints:
  "filteredData st =
     filter (\<lambda>item.
        (\<forall>y. selectedYear st = Some y \<and> truthy_number y \<longrightarrow> Model_Year item = Present y) \<and>
        (\<forall>m. selectedMake st = Some m \<and> m \<noteq> [] \<longrightarrow> Make item = Present m))
       (data st)
   \<and> (\<forall>y item. selectedYear st = Some y \<and> truthy_number y \<and> item \<in> set (filteredData st)
         \<longrightarrow> Model_Year item \<notin> {Undefined, Null, Present NaN})"
proof -
  have eq: "filteredData st =
     filter (\<lambda>item.
        (\<forall>y. selectedYear st = Some y \<and> truthy_number y \<longrightarrow> Model_Year item = Present y) \<and>
        (\<forall>m. selectedMake st = Some m \<and> m \<noteq> [] \<longrightarrow> Make item = Present m))
       (data st)"
    unfolding filteredData_def
    by (rule filter_cong)
       (auto simp: strict_eq_number_iff strict_eq_string_iff truthy_string_def
             split: option.splits)
  have "Model_Year item \<notin> {Undefined, Null, Present NaN}"
    if "selectedYear st = Some y" "truthy_number y" "item \<in> set (filteredData st)" for y item
  proof -
    from that have "Model_Year item = Present y" by (simp add: eq)
    with that(2) show ?thesis by auto
  qed
  with eq show ?thesis by blast
qed

text \<open>
  Claim C1. The test \<open>selectedYear ? ... : true\<close> stands for "a year is selected", and it
  takes a selected year \<open>0\<close> for none. In a store with a row of model year \<open>0\<close> and a row of
  model year 2020, the year \<open>0\<close> is among the options of the year control; with it selected,
  the view is the whole store, and the row of 2020 is in it although its year is not the
  selected one.
\<close>

theorem filter_year_zero_keeps_other_years:
  "Present (Fin 0) \<in> set (uniqueYears
     \<lparr>data = [row (Present (Fin 0)) (Present ''TESLA'') Null Null,
              row (Present (Fin 2020)) (Present ''TESLA'') Null Null],
      currentPage = 1, selectedYear = None, selectedMake = None\<rparr>)
   \<and> filteredData
     \<lparr>data = [row (Present (Fin 0)) (Present ''TESLA'') Null Null,
              row (Present (Fin 2020)) (Present ''TESLA'') Null Null],
      currentPage = 1, selectedYear = Some (Fin 0), selectedMake = None\<rparr>
     = [row (Present (Fin 0)) (Present ''TESLA'') Null Null,
        row (Present (Fin 2020)) (Present ''TESLA'') Null Null]
   \<and> Model_Year (row (Present (Fin 2020)) (Present ''TESLA'') Null Null) \<noteq> Present (Fin 0)
   \<and> filteredData
     \<lparr>data = [row (Present (Fin 0)) (Present ''TESLA'') Null Null,
              row (Present (Fin 2020)) (Present ''TESLA'') Null Null],
      currentPage = 1, selectedYear = Some (Fin 2020), selectedMake = None\<rparr>
     = [row (Present (Fin 2020)) (Present ''TESLA'') Null Null]"
  by (simp add: uniqueYears_def new_Set_def Set_add_def filteredData_def row_def)

text \<open>
  Claim C10. A selected year of \<open>0\<close> or \<open>NaN\<close> and a selected make that is the empty string
  filter exactly as an absent constraint does; with both, the view is the whole store, so the
  rows of model year \<open>0\<close> or of empty make cannot be singled out.
\<close>

theorem falsy_selection_filters_nothing:
  "filteredData (st\<lparr>selectedYear := Some (Fin 0)\<rparr>) = filteredData (st\<lparr>selectedYear := None\<rparr>)
   \<and> filteredData (st\<lparr>selectedYear := Some NaN\<rparr>) = filteredData (st\<lparr>selectedYear := None\<rparr>)
   \<and> filteredData (st\<lparr>selectedMake := Some []\<rparr>) = filteredData (st\<lparr>selectedMake := None\<rparr>)
   \<and> filteredData (st\<lparr>selectedYear := Some (Fin 0), selectedMake := Some []\<rparr>) = data st"
  by (simp add: filteredData_def truthy_string_def)

section \<open>The average range\<close>






section \<open>The filter options\<close>

lemma set_foldl_Set_add: "set (foldl Set_add s xs) = set s \<union> set xs"
  by (induction xs arbitrary: s) (auto simp: Set_add_def)

lemma set_new_Set: "set (new_Set xs) = set xs"
  by (simp add: new_Set_def set_foldl_Set_add)

text \<open>
  Claim C8. The option lists of the two filter controls are computed from the store alone:
  they hold exactly the model years and the makes of all rows, and they are the same whatever
  year and make are selected.
\<close>

theorem facets_ignore_selection:
  "uniqueYears (st\<lparr>selectedYear := y, selectedMake := m\<rparr>) = uniqueYears st
   \<and> uniqueMakesList (st\<lparr>selectedYear := y, selectedMake := m\<rparr>) = uniqueMakesList st
   \<and> set (uniqueYears st) = Model_Year ` set (data st)
   \<and> set (uniqueMakesList st) = Make ` set (data st)"
  by (simp add: uniqueYears_def uniqueMakesList_def set_new_Set)

text \<open>With the make \<open>Tesla\<close> selected, \<open>Ford\<close> leaves the view and stays among the options.\<close>

theorem facets_ignore_selection_witness:
  "uniqueMakesList
     \<lparr>data = [row Null (Present ''Tesla'') Null Null, row Null (Present ''Ford'') Null Null],
      currentPage = 1, selectedYear = None, selectedMake = Some ''Tesla''\<rparr>
   = [Present ''Tesla'', Present ''Ford'']
   \<and> map Make (filteredData
     \<lparr>data = [row Null (Present ''Tesla'') Null Null, row Null (Present ''Ford'') Null Null],
      currentPage = 1, selectedYear = None, selectedMake = Some ''Tesla''\<rparr>) = [Present ''Tesla'']"
  using facets_ignore_selection
    [where st = "\<lparr>data = [row Null (Present ''Tesla'') Null Null,
                          row Null (Present ''Ford'') Null Null],
                  currentPage = 1, selectedYear = None, selectedMake = None\<rparr>"
       and y = None and m = "Some ''Tesla''"]
  by (simp add: uniqueMakesList_def new_Set_def Set_add_def row_def filteredData_def
        truthy_string_def)

section \<open>Pages\<close>

lemma js_slice_nonneg:
  "0 \<le> a \<Longrightarrow> 0 \<le> b \<Longrightarrow> js_slice a b xs = take (nat b - nat a) (drop (nat a) xs)"
  by (auto simp: js_slice_def Let_def min_def nat_diff_distrib' intro!: nth_equalityI)

lemma take_drop_conv_map_nth:
  "take n (drop k xs) = map (\<lambda>i. xs ! i) [k ..< min (k + n) (length xs)]"
proof (rule nth_equalityI)
  show "length (take n (drop k xs)) = length (map (\<lambda>i. xs ! i) [k ..< min (k + n) (length xs)])"
    by (simp add: min_def) arith
next
  fix i assume "i < length (take n (drop k xs))"
  then have "i < n" "k + i < length xs" by auto
  then show "take n (drop k xs) ! i = map (\<lambda>i. xs ! i) [k ..< min (k + n) (length xs)] ! i"
    by simp
qed

lemma js_slice_page:
  "js_slice (int p * int n) ((int p + 1) * int n) xs =
     map (\<lambda>i. xs ! i) [p * n ..< min (Suc p * n) (length xs)]"
proof -
  have "js_slice (int p * int n) ((int p + 1) * int n) xs = take n (drop (p * n) xs)"
    by (subst js_slice_nonneg) (simp_all add: nat_mult_distrib nat_add_distrib algebra_simps)
  then show ?thesis
    by (simp add: take_drop_conv_map_nth algebra_simps)
qed

lemma length_js_slice:
  "a \<le> b \<Longrightarrow> 0 \<le> a \<or> b \<le> 0 \<Longrightarrow> length (js_slice a b xs) \<le> nat (b - a)"
  by (auto simp: js_slice_def Let_def)

text \<open>
  Claim C5. Before the file has arrived the view is empty and the current page is 1; the last
  page computes to \<open>0\<close>, so the Next button is enabled, and a click on it sets the page to \<open>0\<close>.
\<close>

theorem next_click_on_empty_view_gives_page_zero:
  "totalVehicles initial = 0 \<and> currentPage initial = 1 \<and> currentPage initial \<noteq> lastPage initial
   \<and> currentPage (next_click initial) = 0"
  by (simp add: next_click_def lastPage_def totalVehicles_def filteredData_def initial_def)

text \<open>
  Claim C7. For a page number \<open>p \<ge> 1\<close> and any page size the slice holds the rows at the
  positions \<open>(p - 1) * size + 1\<close> to \<open>min (p * size) total\<close>, counted from 1 (the indices one
  less, counted from 0); the page of the table is that slice for the size 10, and it never has
  more than 10 rows, whatever the page number.
\<close>

theorem page_is_the_slice_of_ten:
  "(1 \<le> p \<longrightarrow>
      js_slice ((p - 1) * int n) (p * int n) view =
        map (\<lambda>i. view ! i) [(nat p - 1) * n ..< min (nat p * n) (length view)])
   \<and> (1 \<le> currentPage st \<longrightarrow>
        paginatedData st =
          map (\<lambda>i. filteredData st ! i)
            [(nat (currentPage st) - 1) * ITEMS_PER_PAGE ..<
             min (nat (currentPage st) * ITEMS_PER_PAGE) (totalVehicles st)])
   \<and> length (paginatedData st) \<le> ITEMS_PER_PAGE"
proof -
  have slice: "js_slice ((q - 1) * int k) (q * int k) xs =
        map (\<lambda>i. xs ! i) [(nat q - 1) * k ..< min (nat q * k) (length xs)]"
    if "1 \<le> q" for q k and xs :: "'b list"
  proof -
    define q' where "q' = nat (q - 1)"
    have q: "q = int q' + 1" using that by (simp add: q'_def)
    have n: "nat (int q' + 1) = Suc q'" by simp
    show ?thesis
      unfolding q using js_slice_page [of q' k xs] by (simp add: n)
  qed
  have "length (paginatedData st) \<le> ITEMS_PER_PAGE"
  proof -
    have "0 \<le> (currentPage st - 1) * int ITEMS_PER_PAGE \<or> currentPage st * int ITEMS_PER_PAGE \<le> 0"
      by (cases "1 \<le> currentPage st") (simp_all add: mult_le_0_iff)
    moreover have "(currentPage st - 1) * int ITEMS_PER_PAGE \<le> currentPage st * int ITEMS_PER_PAGE"
      by (simp add: mult_right_mono)
    ultimately show ?thesis
      using length_js_slice [of "(currentPage st - 1) * int ITEMS_PER_PAGE"
          "currentPage st * int ITEMS_PER_PAGE" "filteredData st"]
      by (simp add: paginatedData_def algebra_simps)
  qed
  then show ?thesis
    using slice [of p n view] slice [of "currentPage st" ITEMS_PER_PAGE "filteredData st"]
    by (simp add: paginatedData_def totalVehicles_def)
qed

text \<open>With 23 rows, page 1 holds the rows 1 to 10 and page 3 the rows 21 to 23.\<close>

theorem page_is_the_slice_of_ten_witness:
  "map Model_Year (paginatedData
     \<lparr>data = map (\<lambda>k. row (Present (Fin (of_nat k + 1))) Null Null Null) [0..<23],
      currentPage = 3, selectedYear = None, selectedMake = None\<rparr>)
   = [Present (Fin 21), Present (Fin 22), Present (Fin 23)]
   \<and> map Model_Year (paginatedData
     \<lparr>data = map (\<lambda>k. row (Present (Fin (of_nat k + 1))) Null Null Null) [0..<23],
      currentPage = 1, selectedYear = None, selectedMake = None\<rparr>)
   = map (\<lambda>k. Present (Fin k)) [1, 2, 3, 4, 5, 6, 7, 8, 9, 10]"
proof -
  let ?rows = "map (\<lambda>k. row (Present (Fin (of_nat k + 1))) Null Null Null) [0..<23]"
  let ?st = "\<lambda>p. \<lparr>data = ?rows, currentPage = p, selectedYear = None, selectedMake = None\<rparr>"
  have fd: "filteredData (?st p) = ?rows" for p
    by (simp add: filteredData_def)
  have my: "Model_Year (row y mk ty rg) = y" for y mk ty rg
    by (simp add: row_def)
  have "paginatedData (?st 3) = map (\<lambda>i. ?rows ! i) [20 ..< 23]"
    using page_is_the_slice_of_ten [where st = "?st 3", THEN conjunct2, THEN conjunct1]
    by (simp add: fd totalVehicles_def ITEMS_PER_PAGE_def)
  moreover have "paginatedData (?st 1) = map (\<lambda>i. ?rows ! i) [0 ..< 10]"
    using page_is_the_slice_of_ten [where st = "?st 1", THEN conjunct2, THEN conjunct1]
    by (simp add: fd totalVehicles_def ITEMS_PER_PAGE_def)
  ultimately show ?thesis
    by (simp add: my upt_rec)
qed

section \<open>Distributions by category\<close>

subsection \<open>Sets in insertion order\<close>

lemma new_Set_snoc: "new_Set (xs @ [x]) = Set_add (new_Set xs) x"
  by (simp add: new_Set_def)

lemma distinct_new_Set: "distinct (new_Set xs)"
  by (induction xs rule: rev_induct) (simp_all add: new_Set_snoc Set_add_def new_Set_def)

lemma length_new_Set: "length (new_Set xs) = card (set xs)"
  using distinct_card [OF distinct_new_Set, of xs] by (simp add: set_new_Set)

subsection \<open>Counting into an object\<close>

lemma foldl_let_map:
  "foldl (\<lambda>acc item. let k = f item in g acc k) a xs = foldl g a (map f xs)"
  by (induction xs arbitrary: a) simp_all

lemma map_of_keyed:
  "map_of (map (\<lambda>k. (k, f k)) S) k = (if k \<in> set S then Some (f k) else None)"
  by (induction S) auto

lemma update_keyed_in:
  "distinct S \<Longrightarrow> k \<in> set S \<Longrightarrow>
   AList.update k v (map (\<lambda>k. (k, f k)) S) = map (\<lambda>k'. (k', if k' = k then v else f k')) S"
  by (induction S) auto

lemma update_keyed_notin:
  "k \<notin> set S \<Longrightarrow> AList.update k v (map (\<lambda>k. (k, f k)) S) = map (\<lambda>k. (k, f k)) S @ [(k, v)]"
  by (induction S) auto

lemma tally_counts:
  assumes "set ks \<inter> set Object_prototype_keys = {}"
  shows "foldl (\<lambda>acc k. assign acc k (incremented acc k)) [] ks =
         map (\<lambda>k. (k, Num (count_list ks k))) (new_Set ks)"
  using assms
proof (induction ks rule: rev_induct)
  case Nil
  show ?case by (simp add: new_Set_def)
next
  case (snoc k ks)
  let ?S = "new_Set ks"
  let ?acc = "map (\<lambda>k. (k, Num (count_list ks k))) ?S"
  from snoc.prems have k: "k \<notin> set Object_prototype_keys" and ks: "set ks \<inter> set Object_prototype_keys = {}"
    by auto
  from k have np: "k \<noteq> ''__proto__''" by (auto simp: Object_prototype_keys_def)
  have acc: "foldl (\<lambda>acc k. assign acc k (incremented acc k)) [] ks = ?acc"
    using snoc.IH ks by simp
  show ?case
  proof (cases "k \<in> set ks")
    case True
    then have inS: "k \<in> set ?S" by (simp add: set_new_Set)
    have inc: "incremented ?acc k = Num (count_list ks k + 1)"
      using inS by (simp add: incremented_def map_of_keyed)
    have "assign ?acc k (incremented ?acc k) =
          map (\<lambda>k'. (k', if k' = k then Num (count_list ks k + 1) else Num (count_list ks k'))) ?S"
      using np inS by (simp add: assign_def inc update_keyed_in distinct_new_Set)
    also have "\<dots> = map (\<lambda>k'. (k', Num (count_list (ks @ [k]) k'))) (new_Set (ks @ [k]))"
      using inS by (auto simp: new_Set_snoc Set_add_def)
    finally show ?thesis by (simp add: acc)
  next
    case False
    then have notS: "k \<notin> set ?S" by (simp add: set_new_Set)
    have inc: "incremented ?acc k = Num 1"
      using notS k by (simp add: incremented_def map_of_keyed)
    have "assign ?acc k (incremented ?acc k) = ?acc @ [(k, Num 1)]"
      using np notS by (simp add: assign_def inc update_keyed_notin)
    also have "\<dots> = map (\<lambda>k'. (k', Num (count_list (ks @ [k]) k'))) (new_Set (ks @ [k]))"
      using notS False by (auto simp: new_Set_snoc Set_add_def set_new_Set)
    finally show ?thesis by (simp add: acc)
  qed
qed

lemma makeDistribution_counts:
  assumes "set (makeCategories st) \<inter> set Object_prototype_keys = {}"
  shows "makeDistribution st =
         map (\<lambda>k. (k, Num (count_list (makeCategories st) k))) (new_Set (makeCategories st))"
  unfolding makeDistribution_def foldl_let_map
  using tally_counts [OF assms] by (simp add: makeCategories_def)

subsection \<open>Enumeration order\<close>

lemma length_Object_entries: "length (Object_entries obj) = length obj"
  using sum_length_filter_compl [of "\<lambda>p. is_array_index (fst p)" obj]
  by (simp add: Object_entries_def)

lemma set_Object_entries: "set (Object_entries obj) = set obj"
  by (auto simp: Object_entries_def)

lemma filter_named_Object_entries:
  "filter (\<lambda>p. \<not> is_array_index (fst p)) (Object_entries obj) =
   filter (\<lambda>p. \<not> is_array_index (fst p)) obj"
  by (simp add: Object_entries_def filter_sort)

subsection \<open>Sorting with a comparator that compares keys\<close>

lemma js_insort_conv:
  "(\<And>y. y \<in> set ys \<Longrightarrow> positive (cmp x y) = (f y < f x)) \<Longrightarrow>
   js_insort cmp x ys = insort_key f x ys"
  by (induction ys) (auto simp: not_le)

lemma js_sort_conv:
  fixes f :: "'a \<Rightarrow> int"
  assumes "\<And>x y. x \<in> set xs \<Longrightarrow> y \<in> set xs \<Longrightarrow> positive (cmp x y) = (f y < f x)"
  shows "js_sort cmp xs = sort_key f xs"
  using assms
proof (induction xs)
  case Nil
  show ?case by (simp add: js_sort_def)
next
  case (Cons x xs)
  then have "js_sort cmp xs = sort_key f xs" by simp
  moreover have "js_insort cmp x (sort_key f xs) = insort_key f x (sort_key f xs)"
    by (rule js_insort_conv) (simp add: Cons.prems)
  ultimately show ?case by (simp add: js_sort_def)
qed

lemma js_slice_take: "js_slice 0 (int n) xs = take n xs"
  by (simp add: js_slice_def Let_def min_def)


lemma makeDistribution_sorted:
  assumes "set (makeCategories st) \<inter> set Object_prototype_keys = {}"
  shows "js_sort (\<lambda>a b. js_sub (cell_number (snd b)) (cell_number (snd a)))
           (Object_entries (makeDistribution st)) =
         sort_key by_count_desc (Object_entries (makeDistribution st))"
proof (rule js_sort_conv)
  fix x y :: "string \<times> cell"
  assume "x \<in> set (Object_entries (makeDistribution st))"
     and "y \<in> set (Object_entries (makeDistribution st))"
  then obtain m n where "snd x = Num m" "snd y = Num n"
    by (auto simp: set_Object_entries makeDistribution_counts [OF assms])
  then show "positive (js_sub (cell_number (snd y)) (cell_number (snd x))) =
             (by_count_desc y < by_count_desc x)"
    by (simp add: js_sub_def by_count_desc_def)
qed

lemma makeDistributionData_sorted:
  assumes "set (makeCategories st) \<inter> set Object_prototype_keys = {}"
  shows "makeDistributionData st =
         take 5 (sort_key by_count_desc (Object_entries (makeDistribution st)))"
  using js_slice_take [of 5] by (simp add: makeDistributionData_def makeDistribution_sorted [OF assms])

lemma makeDistributionData_entry:
  assumes "set (makeCategories st) \<inter> set Object_prototype_keys = {}"
      and "p \<in> set (makeDistributionData st)"
  shows "snd p = Num (count_list (makeCategories st) (fst p))"
proof -
  from assms(2) have "p \<in> set (sort_key by_count_desc (Object_entries (makeDistribution st)))"
    unfolding makeDistributionData_sorted [OF assms(1)] by (rule in_set_takeD)
  then have "p \<in> set (makeDistribution st)"
    by (simp add: set_Object_entries)
  then show ?thesis
    by (auto simp: makeDistribution_counts [OF assms(1)])
qed

subsection \<open>Order of two elements of a list\<close>

lemma subseq_set_mono: "subseq xs ys \<Longrightarrow> set xs \<subseteq> set ys"
  by (induction rule: list_emb.induct) auto

lemma nth_pair_subseq: "i < j \<Longrightarrow> j < length xs \<Longrightarrow> subseq [xs ! i, xs ! j] xs"
proof (induction xs arbitrary: i j)
  case Nil
  then show ?case by simp
next
  case (Cons x xs)
  show ?case
  proof (cases i)
    case 0
    with Cons.prems have "(x # xs) ! j \<in> set xs" by (cases j) auto
    then have "subseq [(x # xs) ! j] xs" by (simp add: subseq_singleton_left)
    with 0 show ?thesis by simp
  next
    case (Suc i')
    with Cons.prems obtain j' where j: "j = Suc j'" "i' < j'" "j' < length xs"
      by (cases j) auto
    have "subseq [xs ! i', xs ! j'] (x # xs)"
      by (rule list_emb_Cons) (rule Cons.IH [OF j(2,3)])
    with Suc j(1) show ?thesis by (simp only: nth_Cons_Suc)
  qed
qed

lemma subseq_pair_snoc:
  assumes "subseq [x, y] (S @ [c])"
  shows "subseq [x, y] S \<or> (x \<in> set S \<and> y = c)"
proof -
  from assms obtain xs1 xs2 where d: "[x, y] = xs1 @ xs2" "subseq xs1 S" "subseq xs2 [c]"
    by (rule subseq_appendE)
  show ?thesis
  proof (cases xs1)
    case Nil
    with d(1) have "xs2 = [x, y]" by simp
    moreover from d(3) have "length xs2 \<le> length [c]" by (rule list_emb_length)
    ultimately show ?thesis by simp
  next
    case (Cons a r)
    with d(1) have a: "a = x" and r: "[y] = r @ xs2" by simp_all
    show ?thesis
    proof (cases r)
      case Nil
      with r have "xs2 = [y]" by simp
      with d(3) have "y = c" by (auto split: if_splits)
      moreover from d(2) Cons a Nil have "x \<in> set S" by (simp add: subseq_singleton_left)
      ultimately show ?thesis by simp
    next
      case (Cons b r')
      with r have "r = [y]" by simp
      with d(2) \<open>xs1 = a # r\<close> a show ?thesis by simp
    qed
  qed
qed

lemma first_seen_append: "x \<in> set xs \<Longrightarrow> first_seen (xs @ ys) x = first_seen xs x"
  by (simp add: first_seen_def)

lemma first_seen_less: "x \<in> set xs \<Longrightarrow> first_seen xs x < length xs"
  unfolding first_seen_def
  by (induction xs) auto

lemma first_seen_new: "x \<notin> set xs \<Longrightarrow> first_seen (xs @ [x]) x = length xs"
  unfolding first_seen_def
  by (subst takeWhile_append2) auto

lemma subseq_pair_first_seen:
  "subseq [x, y] (new_Set cats) \<Longrightarrow> first_seen cats x < first_seen cats y"
proof (induction cats rule: rev_induct)
  case Nil
  then show ?case by (simp add: new_Set_def)
next
  case (snoc c cats)
  have old: "first_seen (cats @ [c]) x < first_seen (cats @ [c]) y"
    if "subseq [x, y] (new_Set cats)"
  proof -
    from that have "set [x, y] \<subseteq> set (new_Set cats)"
      by (rule subseq_set_mono)
    then have "x \<in> set cats" "y \<in> set cats"
      by (simp_all add: set_new_Set)
    with snoc.IH [OF that] show ?thesis by (simp add: first_seen_append)
  qed
  show ?case
  proof (cases "c \<in> set cats")
    case True
    with snoc.prems have "subseq [x, y] (new_Set cats)"
      by (simp add: new_Set_snoc Set_add_def set_new_Set)
    then show ?thesis by (rule old)
  next
    case False
    with snoc.prems have "subseq [x, y] (new_Set cats @ [c])"
      by (simp add: new_Set_snoc Set_add_def set_new_Set)
    then consider "subseq [x, y] (new_Set cats)" | "x \<in> set cats" "y = c"
      using subseq_pair_snoc [of x y "new_Set cats" c] by (auto simp: set_new_Set)
    then show ?thesis
    proof cases
      case 1
      then show ?thesis by (rule old)
    next
      case 2
      with False show ?thesis
        by (simp add: first_seen_append first_seen_new first_seen_less)
    qed
  qed
qed


lemma sorted_wrt_subseq: "subseq xs ys \<Longrightarrow> sorted_wrt R ys \<Longrightarrow> sorted_wrt R xs"
proof (induction rule: list_emb.induct)
  case (list_emb_Cons2 x y xs ys)
  then have "set xs \<subseteq> set ys" by (auto dest: subseq_set_mono)
  with list_emb_Cons2 show ?case by auto
qed auto

lemma tied_pair_in_entries:
  assumes H: "set (makeCategories st) \<inter> set Object_prototype_keys = {}"
      and ij: "i < j" "j < length (makeDistributionData st)"
      and tie: "snd (makeDistributionData st ! i) = snd (makeDistributionData st ! j)"
  shows "subseq [makeDistributionData st ! i, makeDistributionData st ! j]
           (Object_entries (makeDistribution st))"
proof -
  let ?a = "makeDistributionData st ! i" and ?b = "makeDistributionData st ! j"
  let ?E = "Object_entries (makeDistribution st)"
  let ?P = "\<lambda>p. by_count_desc p = by_count_desc ?a"
  have "subseq [?a, ?b] (makeDistributionData st)"
    using ij by (rule nth_pair_subseq)
  moreover have "subseq (makeDistributionData st) (sort_key by_count_desc ?E)"
    unfolding makeDistributionData_sorted [OF H]
    by (rule prefix_imp_subseq) (rule take_is_prefix)
  ultimately have "subseq [?a, ?b] (sort_key by_count_desc ?E)"
    by (rule subseq_order.trans)
  then have "subseq (filter ?P [?a, ?b]) (filter ?P (sort_key by_count_desc ?E))"
    by (rule subseq_filter)
  moreover have "filter ?P [?a, ?b] = [?a, ?b]"
    using tie by (simp add: by_count_desc_def)
  moreover have "filter ?P (sort_key by_count_desc ?E) = filter ?P ?E"
    by (rule sort_key_stable)
  ultimately have "subseq [?a, ?b] (filter ?P ?E)" by simp
  then show ?thesis
    using subseq_filter_left [of ?P ?E] by (rule subseq_order.trans)
qed

lemma named_pair_first_seen:
  assumes H: "set (makeCategories st) \<inter> set Object_prototype_keys = {}"
      and sub: "subseq [a, b] (Object_entries (makeDistribution st))"
      and named: "\<not> is_array_index (fst a)" "\<not> is_array_index (fst b)"
  shows "first_seen (makeCategories st) (fst a) < first_seen (makeCategories st) (fst b)"
proof -
  let ?Q = "\<lambda>p::string \<times> cell. \<not> is_array_index (fst p)"
  from sub have "subseq (filter ?Q [a, b]) (filter ?Q (Object_entries (makeDistribution st)))"
    by (rule subseq_filter)
  with named have "subseq [a, b] (filter ?Q (makeDistribution st))"
    by (simp add: filter_named_Object_entries)
  then have "subseq [a, b] (makeDistribution st)"
    using subseq_filter_left [of ?Q "makeDistribution st"] by (rule subseq_order.trans)
  then have "subseq (map fst [a, b]) (map fst (makeDistribution st))"
    by (rule subseq_map)
  then have "subseq [fst a, fst b] (new_Set (makeCategories st))"
    by (simp add: makeDistribution_counts [OF H] comp_def)
  then show ?thesis by (rule subseq_pair_first_seen)
qed

lemma index_pair_ascending:
  assumes sub: "subseq [a, b] (Object_entries obj)"
      and idx: "is_array_index (fst b)"
  shows "is_array_index (fst a) \<and> decimal_value (fst a) \<le> decimal_value (fst b)"
proof -
  let ?X = "sort_key (\<lambda>p. decimal_value (fst p)) (filter (\<lambda>p. is_array_index (fst p)) obj)"
  let ?Y = "filter (\<lambda>p. \<not> is_array_index (fst p)) obj"
  from sub obtain xs1 xs2 where d: "[a, b] = xs1 @ xs2" "subseq xs1 ?X" "subseq xs2 ?Y"
    unfolding Object_entries_def by (rule subseq_appendE)
  have "xs2 = []"
  proof (rule ccontr)
    assume "xs2 \<noteq> []"
    with d(1) have "last xs2 = b" by (metis last.simps last_appendR list.distinct(1))
    with \<open>xs2 \<noteq> []\<close> have "b \<in> set xs2" by (metis last_in_set)
    moreover from d(3) have "set xs2 \<subseteq> set ?Y" by (rule subseq_set_mono)
    ultimately have "b \<in> set ?Y" by blast
    with idx show False by simp
  qed
  with d have ab: "subseq [a, b] ?X" by simp
  then have "set [a, b] \<subseteq> set ?X" by (rule subseq_set_mono)
  then have ia: "is_array_index (fst a)" by simp
  have "sorted (map (\<lambda>p. decimal_value (fst p)) ?X)" by (rule sorted_sort_key)
  moreover from ab
  have "subseq (map (\<lambda>p. decimal_value (fst p)) [a, b]) (map (\<lambda>p. decimal_value (fst p)) ?X)"
    by (rule subseq_map)
  ultimately have "sorted (map (\<lambda>p. decimal_value (fst p)) [a, b])"
    by (rule sorted_wrt_subseq [rotated])
  with ia show ?thesis by simp
qed

subsection \<open>The five most frequent makes\<close>

text \<open>
  Claim C4, as the code has it. When no make of the view is the name of a member of
  \<open>Object.prototype\<close>, the sorted buckets cut to their first \<open>n\<close> have length
  \<open>min n\<close> (number of distinct buckets), for every \<open>n\<close>; the chart data is the cut at 5;
  every entry carries the number of rows of its category; and the counts never increase along
  the sequence (equal counts may follow each other).
\<close>

theorem top_makes_length_and_descending_counts:
  assumes "set (makeCategories st) \<inter> set Object_prototype_keys = {}"
  shows "length (js_slice 0 (int n)
            (js_sort (\<lambda>a b. js_sub (cell_number (snd b)) (cell_number (snd a)))
               (Object_entries (makeDistribution st))))
           = min n (card (set (makeCategories st)))
       \<and> length (makeDistributionData st) = min 5 (card (set (makeCategories st)))
       \<and> (\<forall>p \<in> set (makeDistributionData st).
             snd p = Num (count_list (makeCategories st) (fst p)))
       \<and> (\<forall>i j. i < j \<and> j < length (makeDistributionData st) \<longrightarrow>
             count_list (makeCategories st) (fst (makeDistributionData st ! j))
               \<le> count_list (makeCategories st) (fst (makeDistributionData st ! i)))"
proof -
  let ?out = "makeDistributionData st" and ?cats = "makeCategories st"
  have len: "length (Object_entries (makeDistribution st)) = card (set ?cats)"
    by (simp add: length_Object_entries makeDistribution_counts [OF assms] length_new_Set)
  have a: "length (js_slice 0 (int n)
            (js_sort (\<lambda>a b. js_sub (cell_number (snd b)) (cell_number (snd a)))
               (Object_entries (makeDistribution st)))) = min n (card (set ?cats))"
    by (simp add: makeDistribution_sorted [OF assms] js_slice_take len min.commute)
  have b: "length ?out = min 5 (card (set ?cats))"
    by (simp add: makeDistributionData_sorted [OF assms] len min.commute)
  have c: "snd p = Num (count_list ?cats (fst p))" if "p \<in> set ?out" for p
    using assms that by (rule makeDistributionData_entry)
  have d: "count_list ?cats (fst (?out ! j)) \<le> count_list ?cats (fst (?out ! i))"
    if "i < j" "j < length ?out" for i j
  proof -
    have "sorted (map by_count_desc ?out)"
      unfolding makeDistributionData_sorted [OF assms]
      by (simp add: take_map [symmetric] sorted_wrt_take)
    with that have "by_count_desc (?out ! i) \<le> by_count_desc (?out ! j)"
      using sorted_nth_mono [of "map by_count_desc ?out" i j] by simp
    moreover have "by_count_desc (?out ! k) = - int (count_list ?cats (fst (?out ! k)))"
      if "k < length ?out" for k
      using c [of "?out ! k"] that by (simp add: by_count_desc_def)
    ultimately show ?thesis using that by simp
  qed
  from a b c d show ?thesis by blast
qed

text \<open>
  Claim C9, as the code has it. When no make of the view is the name of a member of
  \<open>Object.prototype\<close>, two entries of equal count appear in the enumeration order of the
  object's keys: if neither category is an array index, the one first seen in the view comes
  first; a category that is an array index is never preceded by one that is not, and two array
  indices come in ascending numeric order.
\<close>

theorem top_makes_ties_in_enumeration_order:
  assumes "set (makeCategories st) \<inter> set Object_prototype_keys = {}"
  shows "\<forall>i j. i < j \<and> j < length (makeDistributionData st)
           \<and> snd (makeDistributionData st ! i) = snd (makeDistributionData st ! j) \<longrightarrow>
         (\<not> is_array_index (fst (makeDistributionData st ! i))
            \<and> \<not> is_array_index (fst (makeDistributionData st ! j)) \<longrightarrow>
          first_seen (makeCategories st) (fst (makeDistributionData st ! i))
            < first_seen (makeCategories st) (fst (makeDistributionData st ! j)))
         \<and> (is_array_index (fst (makeDistributionData st ! j)) \<longrightarrow>
            is_array_index (fst (makeDistributionData st ! i))
            \<and> decimal_value (fst (makeDistributionData st ! i))
                \<le> decimal_value (fst (makeDistributionData st ! j)))"
proof (intro allI impI, elim conjE)
  fix i j
  assume ij: "i < j" "j < length (makeDistributionData st)"
     and tie: "snd (makeDistributionData st ! i) = snd (makeDistributionData st ! j)"
  let ?a = "makeDistributionData st ! i" and ?b = "makeDistributionData st ! j"
  have sub: "subseq [?a, ?b] (Object_entries (makeDistribution st))"
    using assms ij tie by (rule tied_pair_in_entries)
  have "first_seen (makeCategories st) (fst ?a) < first_seen (makeCategories st) (fst ?b)"
    if "\<not> is_array_index (fst ?a)" "\<not> is_array_index (fst ?b)"
    using assms sub that by (rule named_pair_first_seen)
  moreover have "is_array_index (fst ?a) \<and> decimal_value (fst ?a) \<le> decimal_value (fst ?b)"
    if "is_array_index (fst ?b)"
    using sub that by (rule index_pair_ascending)
  ultimately show "(\<not> is_array_index (fst ?a) \<and> \<not> is_array_index (fst ?b) \<longrightarrow>
          first_seen (makeCategories st) (fst ?a) < first_seen (makeCategories st) (fst ?b))
         \<and> (is_array_index (fst ?b) \<longrightarrow>
            is_array_index (fst ?a) \<and> decimal_value (fst ?a) \<le> decimal_value (fst ?b))"
    by blast
qed


text \<open>
  Two makes, one of them twice: two entries.
\<close>

theorem top_makes_length_and_descending_counts_witness:
  "set (makeCategories
     \<lparr>data = [row Null (Present ''TESLA'') Null Null, row Null (Present ''FORD'') Null Null,
              row Null (Present ''TESLA'') Null Null],
      currentPage = 1, selectedYear = None, selectedMake = None\<rparr>)
     \<inter> set Object_prototype_keys = {}
   \<and> length (makeDistributionData
     \<lparr>data = [row Null (Present ''TESLA'') Null Null, row Null (Present ''FORD'') Null Null,
              row Null (Present ''TESLA'') Null Null],
      currentPage = 1, selectedYear = None, selectedMake = None\<rparr>) = 2"
proof -
  let ?st = "\<lparr>data = [row Null (Present ''TESLA'') Null Null, row Null (Present ''FORD'') Null Null,
              row Null (Present ''TESLA'') Null Null],
      currentPage = 1, selectedYear = None, selectedMake = None\<rparr>"
  have cats: "makeCategories ?st = [''TESLA'', ''FORD'', ''TESLA'']"
    by (simp add: makeCategories_def filteredData_def row_def truthy_string_def)
  have h: "set (makeCategories ?st) \<inter> set Object_prototype_keys = {}"
    by (simp add: cats Object_prototype_keys_def)
  have "card (set (makeCategories ?st)) = 2"
    by (simp add: cats card_insert_if)
  with top_makes_length_and_descending_counts [OF h, of 0] h show ?thesis
    by simp
qed

text \<open>
  The sequence is not strictly descending: two makes with one row each give the counts 1, 1.
\<close>

theorem top_makes_tie_counterexample:
  "map snd (makeDistributionData
     \<lparr>data = [row Null (Present ''FORD'') Null Null, row Null (Present ''TESLA'') Null Null],
      currentPage = 1, selectedYear = None, selectedMake = None\<rparr>) = [Num 1, Num 1]"
  by (simp add: makeDistributionData_def makeDistribution_def Object_entries_def assign_def
        incremented_def Object_prototype_keys_def is_array_index_def is_digit_def js_slice_def
        js_sort_def js_sub_def truthy_string_def filteredData_def row_def Let_def)

text \<open>
  \<open>FORD\<close> is seen before \<open>TESLA\<close>, both once: \<open>FORD\<close> comes first.
\<close>

theorem top_makes_ties_in_enumeration_order_witness:
  "set (makeCategories
     \<lparr>data = [row Null (Present ''FORD'') Null Null, row Null (Present ''TESLA'') Null Null],
      currentPage = 1, selectedYear = None, selectedMake = None\<rparr>)
     \<inter> set Object_prototype_keys = {}
   \<and> makeDistributionData
     \<lparr>data = [row Null (Present ''FORD'') Null Null, row Null (Present ''TESLA'') Null Null],
      currentPage = 1, selectedYear = None, selectedMake = None\<rparr>
     = [(''FORD'', Num 1), (''TESLA'', Num 1)]
   \<and> first_seen (makeCategories
     \<lparr>data = [row Null (Present ''FORD'') Null Null, row Null (Present ''TESLA'') Null Null],
      currentPage = 1, selectedYear = None, selectedMake = None\<rparr>) ''FORD''
     < first_seen (makeCategories
     \<lparr>data = [row Null (Present ''FORD'') Null Null, row Null (Present ''TESLA'') Null Null],
      currentPage = 1, selectedYear = None, selectedMake = None\<rparr>) ''TESLA''"
proof -
  let ?st = "\<lparr>data = [row Null (Present ''FORD'') Null Null, row Null (Present ''TESLA'') Null Null],
      currentPage = 1, selectedYear = None, selectedMake = None\<rparr>"
  have cats: "makeCategories ?st = [''FORD'', ''TESLA'']"
    by (simp add: makeCategories_def filteredData_def row_def truthy_string_def)
  have h: "set (makeCategories ?st) \<inter> set Object_prototype_keys = {}"
    by (simp add: cats Object_prototype_keys_def)
  have out: "makeDistributionData ?st = [(''FORD'', Num 1), (''TESLA'', Num 1)]"
    by (simp add: makeDistributionData_def makeDistribution_def Object_entries_def assign_def
        incremented_def Object_prototype_keys_def is_array_index_def is_digit_def js_slice_def
        js_sort_def js_sub_def truthy_string_def filteredData_def row_def Let_def)
  have named: "\<not> is_array_index ''FORD''" "\<not> is_array_index ''TESLA''"
    by (simp_all add: is_array_index_def is_digit_def)
  from top_makes_ties_in_enumeration_order [OF h, rule_format, of 0 1] named
  have "first_seen (makeCategories ?st) ''FORD'' < first_seen (makeCategories ?st) ''TESLA''"
    by (simp add: out)
  with h out show ?thesis by simp
qed

text \<open>
  First-seen order fails for a category that is an array index: \<open>B\<close> is seen before \<open>7\<close>,
  both once, and \<open>7\<close> comes first.
\<close>

theorem top_makes_index_key_counterexample:
  "map (\<lambda>item. or_unknown (Make item)) (filteredData
     \<lparr>data = [row Null (Present ''B'') Null Null, row Null (Present ''7'') Null Null],
      currentPage = 1, selectedYear = None, selectedMake = None\<rparr>) = [''B'', ''7'']
  \<and> makeDistributionData
     \<lparr>data = [row Null (Present ''B'') Null Null, row Null (Present ''7'') Null Null],
      currentPage = 1, selectedYear = None, selectedMake = None\<rparr>
   = [(''7'', Num 1), (''B'', Num 1)]"
  by (simp add: makeDistributionData_def makeDistribution_def Object_entries_def assign_def
        incremented_def Object_prototype_keys_def is_array_index_def is_digit_def js_slice_def
        js_sort_def js_sub_def decimal_value_def
        truthy_string_def filteredData_def row_def Let_def)

section \<open>Average range by model year on empty cells\<close>

text \<open>
  Claim C3. \<open>isNaN(null)\<close> is \<open>false\<close>, so a row whose range or year is \<open>null\<close> (an empty
  cell) is not excluded. Two rows of 2020, one with range 100 and one with an empty range, give
  the average 50 and not 100; a row with an empty year is emitted under the year \<open>null\<close>.
\<close>

theorem rangeByYear_counts_null_cells:
  "rangeByYearData
     \<lparr>data = [row (Present (Fin 2020)) (Present ''TESLA'') Null (Present (Fin 100)),
              row (Present (Fin 2020)) (Present ''TESLA'') Null Null],
      currentPage = 1, selectedYear = None, selectedMake = None\<rparr>
   = [(Present (Fin 2020), Fin 50)]
   \<and> rangeByYearData
     \<lparr>data = [row Null (Present ''TESLA'') Null (Present (Fin 100))],
      currentPage = 1, selectedYear = None, selectedMake = None\<rparr>
   = [(Null, Fin 100)]"
  by (simp add: rangeByYearData_def rangeByYear_def Object_values_def js_sort_def isNaN_def
        filteredData_def row_def Let_def)

section \<open>Vehicle types\<close>

lemma vehicleTypes_counts:
  assumes "set (typeCategories st) \<inter> set Object_prototype_keys = {}"
  shows "vehicleTypes st =
         map (\<lambda>k. (k, Num (count_list (typeCategories st) k))) (new_Set (typeCategories st))"
  unfolding vehicleTypes_def foldl_let_map
  using tally_counts [OF assms] by (simp add: typeCategories_def)

lemma sum_list_insort_key:
  fixes f :: "'a \<Rightarrow> nat"
  shows "sum_list (map f (insort_key g x xs)) = f x + sum_list (map f xs)"
  by (induction xs) simp_all

lemma sum_list_sort_key:
  fixes f :: "'a \<Rightarrow> nat"
  shows "sum_list (map f (sort_key g xs)) = sum_list (map f xs)"
  by (induction xs) (simp_all add: sum_list_insort_key)

lemma sum_list_partition:
  fixes f :: "'a \<Rightarrow> nat"
  shows "sum_list (map f (filter P xs)) + sum_list (map f (filter (\<lambda>x. \<not> P x) xs)) =
         sum_list (map f xs)"
  by (induction xs) simp_all

lemma counts_sum: "sum_list (map (count_list ks) (new_Set ks)) = length ks"
  using sum_list_distinct_conv_sum_set [OF distinct_new_Set, of "count_list ks" ks]
        sum_count_set [of ks "set ks"]
  by (simp add: set_new_Set)

text \<open>
  When no vehicle type of the view is the name of a member of \<open>Object.prototype\<close>, every
  bucket holds the number of rows of its category and the counts add up to the length of the
  view.
\<close>

lemma vehicleTypes_counts_add_up:
  assumes "set (typeCategories st) \<inter> set Object_prototype_keys = {}"
  shows "\<exists>ns. map snd (vehicleTypesData st) = map Num ns \<and> sum_list ns = totalVehicles st"
proof -
  let ?ks = "typeCategories st"
  let ?E = "Object_entries (vehicleTypes st)"
  let ?ns = "map (\<lambda>p. count_list ?ks (fst p)) ?E"
  have "snd p = Num (count_list ?ks (fst p))" if "p \<in> set ?E" for p
    using that by (auto simp: set_Object_entries vehicleTypes_counts [OF assms])
  then have "map snd (vehicleTypesData st) = map Num ?ns"
    by (simp add: vehicleTypesData_def case_prod_beta)
  moreover have "sum_list ?ns = totalVehicles st"
  proof -
    let ?f = "\<lambda>p::string \<times> cell. count_list ?ks (fst p)"
    let ?I = "\<lambda>p::string \<times> cell. is_array_index (fst p)"
    have "sum_list (map ?f ?E) =
          sum_list (map ?f (filter ?I (vehicleTypes st))) +
          sum_list (map ?f (filter (\<lambda>p. \<not> ?I p) (vehicleTypes st)))"
      by (simp add: Object_entries_def sum_list_sort_key)
    also have "\<dots> = sum_list (map ?f (vehicleTypes st))"
      by (rule sum_list_partition)
    also have "\<dots> = sum_list (map (count_list ?ks) (new_Set ?ks))"
      by (simp add: vehicleTypes_counts [OF assms] comp_def)
    also have "\<dots> = totalVehicles st"
      by (simp add: counts_sum typeCategories_def totalVehicles_def)
    finally show ?thesis .
  qed
  ultimately show ?thesis by blast
qed

text \<open>
  Claim C6. A row whose vehicle type is \<open>__proto__\<close> lands in no bucket, and two rows whose
  type is \<open>constructor\<close> give a bucket whose value is a string, not the count 2.
\<close>

theorem vehicleTypes_loses_prototype_names:
  "vehicleTypes
     \<lparr>data = [row Null Null (Present ''__proto__'') Null],
      currentPage = 1, selectedYear = None, selectedMake = None\<rparr> = []
   \<and> vehicleTypesData
     \<lparr>data = [row Null Null (Present ''constructor'') Null,
              row Null Null (Present ''constructor'') Null],
      currentPage = 1, selectedYear = None, selectedMake = None\<rparr> = [(''constructor'', Str)]"
  by (simp add: vehicleTypesData_def vehicleTypes_def Object_entries_def assign_def
        incremented_def Object_prototype_keys_def is_array_index_def is_digit_def
        truthy_string_def filteredData_def row_def Let_def)

end
